theory Spec2Isabelle
  imports Complex_Main "HOL-Library.Word" "HOL-Library.Log_Nat"
begin

unbundle bit_operations_syntax

section \<open>Bytes, Python exceptions and the \<open>struct\<close> formats used\<close>

text \<open>
  A Python \<open>bytes\<close> object is a sequence of integers in \<open>0..255\<close>: a list of 8-bit words.
  Python's own integers are unbounded: \<open>int\<close>.  The two exceptions the protocol code can
  raise by itself are \<open>IndexError\<close> (indexing \<open>response[k]\<close> past the end) and
  \<open>struct.error\<close> (packing a value out of range, unpacking a buffer of the wrong size).
\<close>

type_synonym byte = "8 word"
type_synonym bytes = "byte list"

datatype py_error = IndexError | StructError

text \<open>\<open>struct.pack('<H', v)\<close>: two bytes, low byte first; \<open>struct.error\<close> outside \<open>0..65535\<close>.\<close>

definition pack_H_le :: "int \<Rightarrow> py_error + bytes" where
  "pack_H_le v =
     (if 0 \<le> v \<and> v \<le> 0xFFFF
      then Inr [word_of_int (v AND 0xFF), word_of_int (drop_bit 8 v)]
      else Inl StructError)"

text \<open>\<open>struct.pack('>BBHH', a, b, c, d)\<close>: six bytes, the 16-bit fields high byte first;
  \<open>struct.error\<close> when a field is outside its range.\<close>

definition pack_BBHH_be :: "int \<Rightarrow> int \<Rightarrow> int \<Rightarrow> int \<Rightarrow> py_error + bytes" where
  "pack_BBHH_be a b c d =
     (if 0 \<le> a \<and> a \<le> 0xFF \<and> 0 \<le> b \<and> b \<le> 0xFF \<and>
         0 \<le> c \<and> c \<le> 0xFFFF \<and> 0 \<le> d \<and> d \<le> 0xFFFF
      then Inr [word_of_int a, word_of_int b,
                word_of_int (drop_bit 8 c), word_of_int (c AND 0xFF),
                word_of_int (drop_bit 8 d), word_of_int (d AND 0xFF)]
      else Inl StructError)"

text \<open>\<open>struct.unpack('>H', buf)[0]\<close>: \<open>struct.error\<close> unless \<open>buf\<close> has exactly two bytes.\<close>

fun unpack_H_be :: "bytes \<Rightarrow> py_error + int" where
  "unpack_H_be [hi, lo] = Inr (256 * uint hi + uint lo)"
| "unpack_H_be buf = Inl StructError"

text \<open>The slice \<open>xs[i:j]\<close> for \<open>0 \<le> i\<close> and \<open>0 \<le> j\<close>: it never raises.\<close>

definition py_slice :: "'a list \<Rightarrow> nat \<Rightarrow> nat \<Rightarrow> 'a list" where
  "py_slice xs i j = take (j - i) (drop i xs)"

section \<open>\<open>calculate_crc\<close> (main.py and new\_main.py, the same text)\<close>

text \<open>The inner loop \<open>for _ in range(8)\<close> on the variable \<open>crc\<close>.\<close>

fun crc_bits :: "nat \<Rightarrow> int \<Rightarrow> int" where
  "crc_bits 0 crc = crc"
| "crc_bits (Suc n) crc =
     crc_bits n (if crc AND 0x0001 \<noteq> 0 then drop_bit 1 crc XOR 0xA001 else drop_bit 1 crc)"

text \<open>The outer loop \<open>for byte in data\<close>.\<close>

fun crc_bytes :: "bytes \<Rightarrow> int \<Rightarrow> int" where
  "crc_bytes [] crc = crc"
| "crc_bytes (b # data) crc = crc_bytes data (crc_bits 8 (crc XOR uint b))"

text \<open>The value of the variable \<open>crc\<close> when \<open>calculate_crc\<close> reaches its \<open>return\<close>.\<close>

definition crc_value :: "bytes \<Rightarrow> int" where
  "crc_value data = crc_bytes data 0xFFFF"

definition calculate_crc :: "bytes \<Rightarrow> py_error + bytes" where
  "calculate_crc data = pack_H_le (crc_value data)"

section \<open>\<open>send_modbus_request\<close> (main.py and new\_main.py, the same text up to the pause)\<close>

text \<open>
  The serial port as the protocol code sees it.  \<open>written\<close> holds the frames handed to
  \<open>ser.write\<close>, oldest first.  \<open>incoming\<close> holds, for each coming call of
  \<open>read_modbus_response\<close>, what the port delivers during that call: one entry per turn
  of the reader's \<open>while\<close> loop before its deadline, the bytes \<open>ser.read(ser.in_waiting)\<close>
  returns in that turn, or \<open>[]\<close> for a turn with \<open>ser.in_waiting = 0\<close>.  The pauses
  (\<open>time.sleep\<close>) only decide how many turns fit before the deadline.
\<close>

record serial =
  written :: "bytes list"
  incoming :: "bytes list list"

text \<open>The value of the variable \<open>request\<close>: the packed header followed by its CRC.\<close>

definition request_frame :: "int \<Rightarrow> int \<Rightarrow> int \<Rightarrow> int \<Rightarrow> py_error + bytes" where
  "request_frame slave_id function_code start_addr count =
     (case pack_BBHH_be slave_id function_code start_addr count of
        Inl e \<Rightarrow> Inl e
      | Inr frame \<Rightarrow>
          (case calculate_crc frame of
             Inl e \<Rightarrow> Inl e
           | Inr crc \<Rightarrow> Inr (frame @ crc)))"

definition send_modbus_request ::
  "serial \<Rightarrow> int \<Rightarrow> int \<Rightarrow> int \<Rightarrow> int \<Rightarrow> py_error + serial" where
  "send_modbus_request ser slave_id function_code start_addr count =
     (case request_frame slave_id function_code start_addr count of
        Inl e \<Rightarrow> Inl e
      | Inr request \<Rightarrow> Inr (ser\<lparr>written := written ser @ [request]\<rparr>))"

section \<open>\<open>read_modbus_response\<close> of new\_main.py\<close>

text \<open>The test that ends the \<open>while\<close> loop by \<open>break\<close> (new\_main.py, lines 59 to 69).\<close>

definition frame_complete :: "bytes \<Rightarrow> bool" where
  "frame_complete response =
     (if length response \<ge> 5 then
        (if response ! 1 = 0x03 then
           (let byte_count = unat (response ! 2); expected_len = 5 + byte_count
            in length response \<ge> expected_len)
         else if response ! 1 \<ge> 0x80 then length response \<ge> 5
         else False)
      else False)"

text \<open>
  The \<open>while\<close> loop: each turn appends what the port delivers, then tests for a complete
  frame.  The list of turns ends at the deadline; turns after a \<open>break\<close> do not happen.
\<close>

fun receive :: "bytes \<Rightarrow> bytes list \<Rightarrow> bytes" where
  "receive response [] = response"
| "receive response (chunk # later) =
     (let response' = (if length chunk > 0 then response @ chunk else response)
      in if frame_complete response' then response' else receive response' later)"

text \<open>The loop \<open>for i in range(0, byte_count, 2)\<close> that fills \<open>registers\<close>.\<close>

function registers_loop :: "bytes \<Rightarrow> nat \<Rightarrow> nat \<Rightarrow> int list \<Rightarrow> py_error + int list" where
  "registers_loop data i byte_count registers =
     (if i < byte_count then
        (case unpack_H_be (py_slice data i (i + 2)) of
           Inl e \<Rightarrow> Inl e
         | Inr reg_value \<Rightarrow> registers_loop data (i + 2) byte_count (registers @ [reg_value]))
      else Inr registers)"
  by pat_completeness auto
termination
  by (relation "measure (\<lambda>(data, i, byte_count, registers). byte_count - i)") auto

declare registers_loop.simps [simp del]

text \<open>
  What follows the loop (new\_main.py, lines 71 to 92).  \<open>Inr None\<close> is \<open>return None\<close>,
  \<open>Inr (Some registers)\<close> is \<open>return registers\<close>, \<open>Inl\<close> is an exception leaving the function.
\<close>

definition parse_response :: "bytes \<Rightarrow> py_error + int list option" where
  "parse_response response =
     (if response \<noteq> [] then
        (if length response \<le> 1 then Inl IndexError
         else
           (let function_code = response ! 1 in
            if function_code \<ge> 0x80 then Inr None
            else if function_code = 0x03 then
              (if length response \<le> 2 then Inl IndexError
               else
                 (let byte_count = unat (response ! 2);
                      data = py_slice response 3 (3 + byte_count)
                  in case registers_loop data 0 byte_count [] of
                       Inl e \<Rightarrow> Inl e
                     | Inr registers \<Rightarrow> Inr (Some registers)))
            else Inr None))
      else Inr None)"

text \<open>The whole function, run on what the port delivers during the call.\<close>

definition read_modbus_response :: "bytes list \<Rightarrow> py_error + int list option" where
  "read_modbus_response turns = parse_response (receive [] turns)"

section \<open>\<open>read_modbus_response\<close> of main.py\<close>

text \<open>main.py reads the byte count whatever the function code is (lines 81 to 86).\<close>

definition main_frame_complete :: "bytes \<Rightarrow> bool" where
  "main_frame_complete response =
     (if length response \<ge> 5 then
        (let byte_count = (if length response > 2 then unat (response ! 2) else 0);
             expected_len = 5 + byte_count
         in length response \<ge> expected_len)
      else False)"

fun main_receive :: "bytes \<Rightarrow> bytes list \<Rightarrow> bytes" where
  "main_receive response [] = response"
| "main_receive response (chunk # later) =
     (let response' = (if length chunk > 0 then response @ chunk else response)
      in if main_frame_complete response' then response' else main_receive response' later)"

text \<open>main.py reads \<open>error_code = response[2]\<close> before it returns \<open>None\<close> (lines 88 to 119).\<close>

definition main_parse_response :: "bytes \<Rightarrow> py_error + int list option" where
  "main_parse_response response =
     (if response \<noteq> [] then
        (if length response \<le> 1 then Inl IndexError
         else
           (let function_code = response ! 1 in
            if function_code \<ge> 0x80 then
              (if length response \<le> 2 then Inl IndexError else Inr None)
            else if function_code = 0x03 then
              (if length response \<le> 2 then Inl IndexError
               else
                 (let byte_count = unat (response ! 2);
                      data = py_slice response 3 (3 + byte_count)
                  in case registers_loop data 0 byte_count [] of
                       Inl e \<Rightarrow> Inl e
                     | Inr registers \<Rightarrow> Inr (Some registers)))
            else Inr None))
      else Inr None)"

definition main_read_modbus_response :: "bytes list \<Rightarrow> py_error + int list option" where
  "main_read_modbus_response turns = main_parse_response (main_receive [] turns)"

section \<open>address.py: the register map and the fault decoder\<close>

definition BATT_TEMP_START_ADDRESS :: int where "BATT_TEMP_START_ADDRESS = 0x30"
definition BATT_TEMP_REGISTER_COUNT :: int where "BATT_TEMP_REGISTER_COUNT = 8"
definition BATT_TEMP_OFFSET_CELL_1 :: nat where "BATT_TEMP_OFFSET_CELL_1 = 0x00"
definition BATT_TEMP_OFFSET_CELL_2 :: nat where "BATT_TEMP_OFFSET_CELL_2 = 0x01"
definition BATT_TEMP_OFFSET_CELL_3 :: nat where "BATT_TEMP_OFFSET_CELL_3 = 0x02"
definition BATT_TEMP_OFFSET_CELL_4 :: nat where "BATT_TEMP_OFFSET_CELL_4 = 0x03"
definition START_ADDRESS :: int where "START_ADDRESS = 0x38"
definition REGISTER_COUNT :: int where "REGISTER_COUNT = 50"
definition OFFSET_VOLTAGE :: nat where "OFFSET_VOLTAGE = 0x00"
definition OFFSET_CURRENT :: nat where "OFFSET_CURRENT = 0x01"
definition OFFSET_SOC :: nat where "OFFSET_SOC = 0x02"
definition OFFSET_MAX_CELL_V :: nat where "OFFSET_MAX_CELL_V = 0x06"
definition OFFSET_MIN_CELL_V :: nat where "OFFSET_MIN_CELL_V = 0x08"
definition OFFSET_DIFF_CELL_V :: nat where "OFFSET_DIFF_CELL_V = 0x0A"
definition OFFSET_CHG_DISCHG_STATUS :: nat where "OFFSET_CHG_DISCHG_STATUS = 0x10"
definition OFFSET_REMAINING_CAP :: nat where "OFFSET_REMAINING_CAP = 0x13"
definition OFFSET_CYCLES :: nat where "OFFSET_CYCLES = 0x14"
definition OFFSET_FAULT_1 :: nat where "OFFSET_FAULT_1 = 0x2E"
definition OFFSET_FAULT_2 :: nat where "OFFSET_FAULT_2 = 0x2F"
definition OFFSET_FAULT_3 :: nat where "OFFSET_FAULT_3 = 0x30"
definition OFFSET_FAULT_4 :: nat where "OFFSET_FAULT_4 = 0x31"
definition CURRENT_OFFSET :: int where "CURRENT_OFFSET = 30000"
definition TEMP_OFFSET :: int where "TEMP_OFFSET = 40"


text \<open>One statement \<open>if byte & mask: faults.append(label)\<close>, given the value of \<open>byte & mask\<close>.\<close>

definition append_if :: "int \<Rightarrow> string \<Rightarrow> string list \<Rightarrow> string list" where
  "append_if masked label faults = (if masked \<noteq> 0 then faults @ [label] else faults)"

text \<open>\<open>get_fault_list\<close>, statement by statement; \<open>>> 8\<close> is \<open>drop_bit 8\<close>, \<open>&\<close> is \<open>AND\<close>.\<close>

definition get_fault_list :: "int \<Rightarrow> int \<Rightarrow> int \<Rightarrow> int \<Rightarrow> string list" where
  "get_fault_list f1 f2 f3 f4 =
     (let faults = [];
          f1_msb = drop_bit 8 f1 AND 0xFF;
          f1_lsb = f1 AND 0xFF;
          faults = append_if (f1_msb AND 0x01) ''Cell V High L1'' faults;
          faults = append_if (f1_msb AND 0x02) ''Cell V High L2'' faults;
          faults = append_if (f1_msb AND 0x04) ''Cell V Low L1'' faults;
          faults = append_if (f1_msb AND 0x08) ''Cell V Low L2'' faults;
          faults = append_if (f1_msb AND 0x10) ''Pack V High L1'' faults;
          faults = append_if (f1_msb AND 0x20) ''Pack V High L2'' faults;
          faults = append_if (f1_msb AND 0x40) ''Pack V Low L1'' faults;
          faults = append_if (f1_msb AND 0x80) ''Pack V Low L2'' faults;
          faults = append_if (f1_lsb AND 0x01) ''Chg Temp High L1'' faults;
          faults = append_if (f1_lsb AND 0x02) ''Chg Temp High L2'' faults;
          faults = append_if (f1_lsb AND 0x04) ''Chg Temp Low L1'' faults;
          faults = append_if (f1_lsb AND 0x08) ''Chg Temp Low L2'' faults;
          faults = append_if (f1_lsb AND 0x10) ''Dischg Temp High L1'' faults;
          faults = append_if (f1_lsb AND 0x20) ''Dischg Temp High L2'' faults;
          faults = append_if (f1_lsb AND 0x40) ''Dischg Temp Low L1'' faults;
          faults = append_if (f1_lsb AND 0x80) ''Dischg Temp Low L2'' faults;
          f2_msb = drop_bit 8 f2 AND 0xFF;
          f2_lsb = f2 AND 0xFF;
          faults = append_if (f2_msb AND 0x01) ''Chg Overcur L1'' faults;
          faults = append_if (f2_msb AND 0x02) ''Chg Overcur L2'' faults;
          faults = append_if (f2_msb AND 0x04) ''Dischg Overcur L1'' faults;
          faults = append_if (f2_msb AND 0x08) ''Dischg Overcur L2'' faults;
          faults = append_if (f2_msb AND 0x10) ''SOC High L1'' faults;
          faults = append_if (f2_msb AND 0x20) ''SOC High L2'' faults;
          faults = append_if (f2_msb AND 0x40) ''SOC Low L1'' faults;
          faults = append_if (f2_msb AND 0x80) ''SOC Low L2'' faults;
          faults = append_if (f2_lsb AND 0x01) ''Diff V High L1'' faults;
          faults = append_if (f2_lsb AND 0x02) ''Diff V High L2'' faults;
          faults = append_if (f2_lsb AND 0x04) ''Diff Temp High L1'' faults;
          faults = append_if (f2_lsb AND 0x08) ''Diff Temp High L2'' faults;
          faults = append_if (f2_lsb AND 0x10) ''MOS Temp High L1'' faults;
          faults = append_if (f2_lsb AND 0x20) ''MOS Temp High L2'' faults;
          faults = append_if (f2_lsb AND 0x40) ''Amb Temp High L1'' faults;
          faults = append_if (f2_lsb AND 0x80) ''Amb Temp High L2'' faults;
          f3_msb = drop_bit 8 f3 AND 0xFF;
          f3_lsb = f3 AND 0xFF;
          faults = append_if (f3_msb AND 0x01) ''Chg MOS Temp Warn'' faults;
          faults = append_if (f3_msb AND 0x02) ''Dischg MOS Temp Warn'' faults;
          faults = append_if (f3_msb AND 0x04) ''Chg MOS Sensor Fail'' faults;
          faults = append_if (f3_msb AND 0x08) ''Dischg MOS Sensor Fail'' faults;
          faults = append_if (f3_msb AND 0x10) ''Chg MOS Adhesion'' faults;
          faults = append_if (f3_msb AND 0x20) ''Dischg MOS Adhesion'' faults;
          faults = append_if (f3_msb AND 0x40) ''Chg MOS Open Circ'' faults;
          faults = append_if (f3_msb AND 0x80) ''Dischg MOS Open Circ'' faults;
          faults = append_if (f3_lsb AND 0x01) ''AFE Fail'' faults;
          faults = append_if (f3_lsb AND 0x02) ''Volt Sensor Disconn'' faults;
          faults = append_if (f3_lsb AND 0x04) ''Temp Sensor Fail'' faults;
          faults = append_if (f3_lsb AND 0x08) ''EEPROM Fail'' faults;
          faults = append_if (f3_lsb AND 0x10) ''RTC Fail'' faults;
          faults = append_if (f3_lsb AND 0x20) ''Precharge Fail'' faults;
          faults = append_if (f3_lsb AND 0x40) ''Veh Comm Fail'' faults;
          faults = append_if (f3_lsb AND 0x80) ''Int Net Fail'' faults;
          f4_msb = drop_bit 8 f4 AND 0xFF;
          faults = append_if (f4_msb AND 0x01) ''Curr Mod Fail'' faults;
          faults = append_if (f4_msb AND 0x02) ''Press Mod Fail'' faults;
          faults = append_if (f4_msb AND 0x04) ''Short Circ'' faults;
          faults = append_if (f4_msb AND 0x08) ''Low V Chg Prohibit'' faults;
          faults = append_if (f4_msb AND 0x10) ''GPS/Switch MOS'' faults;
          faults = append_if (f4_msb AND 0x20) ''Chg Cab Offline'' faults
      in faults)"

section \<open>The polling loop of new\_main.py\<close>

text \<open>
  Python's \<open>float\<close> is the IEEE 754 double.  A finite double is modelled by the rational
  number it denotes.  \<open>round_double q\<close> is the double nearest to \<open>q\<close>, ties going to the even
  significand (the rounding of every float operation of CPython): with
  \<open>2 ^ e \<le> \<bar>q\<bar> < 2 ^ (e + 1)\<close>, the doubles around \<open>q\<close> are the multiples of \<open>2 ^ (e - 52)\<close>.
  This is the rounding of the normal range, from \<open>2 ^ -1022\<close> up to the largest double; an
  int beyond it would make the conversion raise \<open>OverflowError\<close>.  The registers the reader
  returns are 16-bit values, far inside that range.
\<close>

text \<open>The exponent \<open>e\<close> with \<open>2 ^ e \<le> \<bar>q\<bar> < 2 ^ (e + 1)\<close>, for \<open>q \<noteq> 0\<close>.\<close>

definition binade :: "rat \<Rightarrow> int" where
  "binade q =
     (case quotient_of \<bar>q\<bar> of
        (a, b) \<Rightarrow> (let k = bitlen a - bitlen b in if 2 powi k \<le> \<bar>q\<bar> then k else k - 1))"

definition round_half_even :: "rat \<Rightarrow> int" where
  "round_half_even q =
     (let f = \<lfloor>q\<rfloor>; d = q - of_int f
      in if d < 1 / 2 then f else if 1 / 2 < d then f + 1 else if even f then f else f + 1)"

definition round_double :: "rat \<Rightarrow> rat" where
  "round_double q =
     (if q = 0 then 0
      else (let ulp = 2 powi (binade q - 52) in of_int (round_half_even (q / ulp)) * ulp))"

text \<open>The conversion of an int operand to a double, and the division of two doubles.\<close>

definition float_of_int :: "int \<Rightarrow> rat" where
  "float_of_int x = round_double (of_int x)"

definition float_truediv :: "rat \<Rightarrow> rat \<Rightarrow> rat" where
  "float_truediv a b = round_double (a / b)"

text \<open>
  The values the loop body computes from a pack-data answer before it prints them.  In
  \<open>registers[k] / 10.0\<close> the register is converted to a double and divided by the double 10.
\<close>

record pack_reading =
  voltage :: rat
  current :: rat
  soc :: rat
  min_v :: int
  max_v :: int
  diff_v :: int
  status_str :: string
  cycles :: int
  rem_cap :: rat
  fault_list :: "string list"

text \<open>Lines 124 to 135: \<open>cell_temps\<close> after the temperature answer.  \<open>None\<close> and the empty
  list are both false in the test \<open>if temp_registers and ...\<close>.\<close>

definition cell_temps_of :: "int list option \<Rightarrow> int list" where
  "cell_temps_of temp_registers =
     (case temp_registers of
        None \<Rightarrow> []
      | Some regs \<Rightarrow>
          if regs \<noteq> [] \<and> length regs \<ge> 4 then
            [regs ! BATT_TEMP_OFFSET_CELL_1 - TEMP_OFFSET,
             regs ! BATT_TEMP_OFFSET_CELL_2 - TEMP_OFFSET,
             regs ! BATT_TEMP_OFFSET_CELL_3 - TEMP_OFFSET,
             regs ! BATT_TEMP_OFFSET_CELL_4 - TEMP_OFFSET]
          else [])"

text \<open>Lines 145 to 181: the branch taken when \<open>registers and len(registers) == REGISTER_COUNT\<close>;
  \<open>None\<close> stands for the \<open>else\<close> branch.\<close>

definition pack_reading_of :: "int list option \<Rightarrow> pack_reading option" where
  "pack_reading_of registers =
     (case registers of
        None \<Rightarrow> None
      | Some regs \<Rightarrow>
          if regs \<noteq> [] \<and> int (length regs) = REGISTER_COUNT then
            (let status_val = regs ! OFFSET_CHG_DISCHG_STATUS in
             Some \<lparr>voltage = float_truediv (float_of_int (regs ! OFFSET_VOLTAGE)) 10,
                   current =
                     float_truediv (float_of_int (regs ! OFFSET_CURRENT - CURRENT_OFFSET)) 10,
                   soc = float_truediv (float_of_int (regs ! OFFSET_SOC)) 10,
                   min_v = regs ! OFFSET_MIN_CELL_V,
                   max_v = regs ! OFFSET_MAX_CELL_V,
                   diff_v = regs ! OFFSET_DIFF_CELL_V,
                   status_str = (if status_val = 1 then ''Charge''
                                 else if status_val = 2 then ''Dischg'' else ''Idle''),
                   cycles = regs ! OFFSET_CYCLES,
                   rem_cap = float_truediv (float_of_int (regs ! OFFSET_REMAINING_CAP)) 10,
                   fault_list = get_fault_list (regs ! OFFSET_FAULT_1) (regs ! OFFSET_FAULT_2)
                                  (regs ! OFFSET_FAULT_3) (regs ! OFFSET_FAULT_4)\<rparr>)
          else None)"

text \<open>What the loop body prints for one battery: the line of values (with the cell
  temperatures and, inside the reading, the faults), or the line that says \<open>Timeout\<close>.\<close>

datatype row = DataRow string pack_reading "int list" | TimeoutRow string

text \<open>The line the loop body prints once both answers are in (lines 145 to 186).\<close>

definition print_row :: "string \<Rightarrow> int list option \<Rightarrow> int list \<Rightarrow> row" where
  "print_row name registers cell_temps =
     (case pack_reading_of registers of
        Some reading \<Rightarrow> DataRow name reading cell_temps
      | None \<Rightarrow> TimeoutRow name)"

text \<open>A call of \<open>read_modbus_response(ser)\<close>: it consumes what the port delivers during the
  call; a port with nothing more to deliver stays silent until the deadline.\<close>

definition ser_read_modbus_response :: "serial \<Rightarrow> (py_error + int list option) \<times> serial" where
  "ser_read_modbus_response ser =
     (case incoming ser of
        [] \<Rightarrow> (read_modbus_response [], ser)
      | turns # later \<Rightarrow> (read_modbus_response turns, ser\<lparr>incoming := later\<rparr>))"

text \<open>The body of \<open>for request_id, response_id, name in BATTERIES\<close> (lines 118 to 188).  An
  exception leaves the body, and the loop, before the battery's line is printed.\<close>

fun poll_battery :: "serial \<Rightarrow> int \<times> int \<times> string \<Rightarrow> py_error + (serial \<times> row)" where
  "poll_battery ser (request_id, response_id, name) =
     (case send_modbus_request ser request_id 0x03
             BATT_TEMP_START_ADDRESS BATT_TEMP_REGISTER_COUNT of
        Inl e \<Rightarrow> Inl e
      | Inr ser1 \<Rightarrow>
          (case ser_read_modbus_response ser1 of
             (Inl e, ser2) \<Rightarrow> Inl e
           | (Inr temp_registers, ser2) \<Rightarrow>
               (let cell_temps = cell_temps_of temp_registers in
                case send_modbus_request ser2 request_id 0x03 START_ADDRESS REGISTER_COUNT of
                  Inl e \<Rightarrow> Inl e
                | Inr ser3 \<Rightarrow>
                    (case ser_read_modbus_response ser3 of
                       (Inl e, ser4) \<Rightarrow> Inl e
                     | (Inr registers, ser4) \<Rightarrow>
                         Inr (ser4, print_row name registers cell_temps)))))"

text \<open>One pass of the \<open>for\<close> loop over the batteries: the lines printed, in order, and how the
  pass ended (the port after the last battery, or the exception that stopped the pass).\<close>

fun poll_cycle :: "serial \<Rightarrow> (int \<times> int \<times> string) list \<Rightarrow> row list \<times> (py_error + serial)" where
  "poll_cycle ser [] = ([], Inr ser)"
| "poll_cycle ser (battery # batteries) =
     (case poll_battery ser battery of
        Inl e \<Rightarrow> ([], Inl e)
      | Inr (ser', printed) \<Rightarrow>
          (case poll_cycle ser' batteries of
             (rows, outcome) \<Rightarrow> (printed # rows, outcome)))"

definition BATTERIES :: "(int \<times> int \<times> string) list" where
  "BATTERIES = [(0x81, 0x51, ''Battery 1''), (0x82, 0x52, ''Battery 2''), (0x83, 0x53, ''Battery 3'')]"

section \<open>The fault catalogue in the order the specification gives\<close>

text \<open>
  The specification's reading of the fault decoder, to compare with \<open>get_fault_list\<close>: each
  fault word is split into its high byte and its low byte; the labels of a byte are listed by
  bit, from bit 0 up; a label is emitted when its bit is 1; the bytes come in the order word 1
  high, word 1 low, word 2 high, and so on.  The labels are those of address.py; word 4 has
  labels for bits 0 to 5 of its high byte only.
\<close>

definition fault1_high_labels :: "string list" where
  "fault1_high_labels =
    [''Cell V High L1'',
     ''Cell V High L2'',
     ''Cell V Low L1'',
     ''Cell V Low L2'',
     ''Pack V High L1'',
     ''Pack V High L2'',
     ''Pack V Low L1'',
     ''Pack V Low L2'']"

definition fault1_low_labels :: "string list" where
  "fault1_low_labels =
    [''Chg Temp High L1'',
     ''Chg Temp High L2'',
     ''Chg Temp Low L1'',
     ''Chg Temp Low L2'',
     ''Dischg Temp High L1'',
     ''Dischg Temp High L2'',
     ''Dischg Temp Low L1'',
     ''Dischg Temp Low L2'']"

definition fault2_high_labels :: "string list" where
  "fault2_high_labels =
    [''Chg Overcur L1'',
     ''Chg Overcur L2'',
     ''Dischg Overcur L1'',
     ''Dischg Overcur L2'',
     ''SOC High L1'',
     ''SOC High L2'',
     ''SOC Low L1'',
     ''SOC Low L2'']"

definition fault2_low_labels :: "string list" where
  "fault2_low_labels =
    [''Diff V High L1'',
     ''Diff V High L2'',
     ''Diff Temp High L1'',
     ''Diff Temp High L2'',
     ''MOS Temp High L1'',
     ''MOS Temp High L2'',
     ''Amb Temp High L1'',
     ''Amb Temp High L2'']"

definition fault3_high_labels :: "string list" where
  "fault3_high_labels =
    [''Chg MOS Temp Warn'',
     ''Dischg MOS Temp Warn'',
     ''Chg MOS Sensor Fail'',
     ''Dischg MOS Sensor Fail'',
     ''Chg MOS Adhesion'',
     ''Dischg MOS Adhesion'',
     ''Chg MOS Open Circ'',
     ''Dischg MOS Open Circ'']"

definition fault3_low_labels :: "string list" where
  "fault3_low_labels =
    [''AFE Fail'',
     ''Volt Sensor Disconn'',
     ''Temp Sensor Fail'',
     ''EEPROM Fail'',
     ''RTC Fail'',
     ''Precharge Fail'',
     ''Veh Comm Fail'',
     ''Int Net Fail'']"

definition fault4_high_labels :: "string list" where
  "fault4_high_labels =
    [''Curr Mod Fail'',
     ''Press Mod Fail'',
     ''Short Circ'',
     ''Low V Chg Prohibit'',
     ''GPS/Switch MOS'',
     ''Chg Cab Offline'']"

definition high_byte :: "int \<Rightarrow> int" where
  "high_byte w = (w div 256) mod 256"

definition low_byte :: "int \<Rightarrow> int" where
  "low_byte w = w mod 256"

text \<open>The labels of one byte whose bits are set, by ascending bit number.\<close>

definition active_labels :: "int \<Rightarrow> string list \<Rightarrow> string list" where
  "active_labels b labels =
     map snd (filter (\<lambda>(k, label). bit b k) (zip [0..<length labels] labels))"

definition faults_in_order :: "int \<Rightarrow> int \<Rightarrow> int \<Rightarrow> int \<Rightarrow> string list" where
  "faults_in_order f1 f2 f3 f4 =
     active_labels (high_byte f1) fault1_high_labels @
     active_labels (low_byte f1) fault1_low_labels @
     active_labels (high_byte f2) fault2_high_labels @
     active_labels (low_byte f2) fault2_low_labels @
     active_labels (high_byte f3) fault3_high_labels @
     active_labels (low_byte f3) fault3_low_labels @
     active_labels (high_byte f4) fault4_high_labels"

definition all_fault_labels :: "string list" where
  "all_fault_labels =
     fault1_high_labels @ fault1_low_labels @ fault2_high_labels @ fault2_low_labels @
     fault3_high_labels @ fault3_low_labels @ fault4_high_labels"

text \<open>A one-label list or none; \<open>append_if\<close> appends it.\<close>

definition label_if :: "bool \<Rightarrow> string \<Rightarrow> string list" where
  "label_if c label = (if c then [label] else [])"

section \<open>The CRC stays a 16-bit value\<close>

lemma xor_u16:
  fixes x y :: int
  assumes "0 \<le> x" "x < 2 ^ 16" "0 \<le> y" "y < 2 ^ 16"
  shows "0 \<le> x XOR y \<and> x XOR y < 2 ^ 16"
proof
  show "0 \<le> x XOR y" using assms by (simp add: XOR_lower)
  show "x XOR y < 2 ^ 16" using assms(1,2,4) by (rule XOR_upper)
qed

lemma crc_bits_range:
  "0 \<le> crc \<Longrightarrow> crc < 2 ^ 16 \<Longrightarrow> 0 \<le> crc_bits n crc \<and> crc_bits n crc < 2 ^ 16"
proof (induction n arbitrary: crc)
  case 0
  then show ?case by simp
next
  case (Suc n)
  have half: "0 \<le> drop_bit 1 crc" "drop_bit 1 crc < 2 ^ 16"
    using Suc.prems by (simp_all add: drop_bit_eq_div)
  have "0 \<le> drop_bit 1 crc XOR 0xA001 \<and> drop_bit 1 crc XOR 0xA001 < 2 ^ 16"
    using half by (intro xor_u16) simp_all
  with half show ?case
    using Suc.IH [of "drop_bit 1 crc"] Suc.IH [of "drop_bit 1 crc XOR 0xA001"] by simp
qed

lemma crc_bytes_range:
  "0 \<le> crc \<Longrightarrow> crc < 2 ^ 16 \<Longrightarrow> 0 \<le> crc_bytes data crc \<and> crc_bytes data crc < 2 ^ 16"
proof (induction data arbitrary: crc)
  case Nil
  then show ?case by simp
next
  case (Cons b data)
  have "uint b < 2 ^ 8"
    using uint_bounded [of b] by simp
  then have "0 \<le> uint b" "uint b < 2 ^ 16"
    by simp_all
  with Cons.prems have "0 \<le> crc XOR uint b \<and> crc XOR uint b < 2 ^ 16"
    by (intro xor_u16)
  then have "0 \<le> crc_bits 8 (crc XOR uint b) \<and> crc_bits 8 (crc XOR uint b) < 2 ^ 16"
    using crc_bits_range by blast
  then show ?case
    using Cons.IH [of "crc_bits 8 (crc XOR uint b)"] by simp
qed

lemma crc_value_range: "0 \<le> crc_value data \<and> crc_value data \<le> 0xFFFF"
  using crc_bytes_range [of "0xFFFF" data] by (simp add: crc_value_def)

text \<open>So \<open>struct.pack('<H', crc)\<close> never raises inside \<open>calculate_crc\<close>: the function is
  total and returns the low byte of \<open>crc\<close> followed by its high byte.\<close>

lemma calculate_crc_total:
  "calculate_crc data =
     Inr [word_of_int (crc_value data AND 0xFF), word_of_int (drop_bit 8 (crc_value data))]"
  using crc_value_range [of data] by (simp add: calculate_crc_def pack_H_le_def)

section \<open>C2: the checksum test vector\<close>

text \<open>
  C2, as stated, fails.  The claim gives the checksum of \<open>01 03 00 00 00 0A\<close> as the 16-bit
  value \<open>0xC5CD\<close> and its low-byte-first serialisation as \<open>C5 CD\<close>.  The value the code
  computes is not \<open>0xC5CD\<close>, and \<open>0xC5CD\<close> serialised low byte first would be \<open>CD C5\<close>.
\<close>

theorem crc_vector_value_is_not_C5CD:
  "crc_value [0x01, 0x03, 0x00, 0x00, 0x00, 0x0A] \<noteq> 0xC5CD \<and>
   pack_H_le 0xC5CD = Inr [0xCD, 0xC5]"
  by code_simp

text \<open>
  C2, amended: the checksum (initial value \<open>0xFFFF\<close>, feedback \<open>0xA001\<close>, least significant
  bit first) of \<open>01 03 00 00 00 0A\<close> is the 16-bit value \<open>0xCDC5\<close>, and \<open>calculate_crc\<close>
  returns it serialised low byte first, as the two bytes \<open>C5 CD\<close> in that order.
\<close>

theorem crc_vector:
  "crc_value [0x01, 0x03, 0x00, 0x00, 0x00, 0x0A] = 0xCDC5 \<and>
   calculate_crc [0x01, 0x03, 0x00, 0x00, 0x00, 0x0A] = Inr [0xC5, 0xCD]"
  by code_simp

section \<open>C6: the register count of a request\<close>

lemma u16_bytes:
  fixes d :: int
  assumes "0 \<le> d" "d \<le> 0xFFFF"
  shows "256 * uint (word_of_int (drop_bit 8 d) :: byte) + uint (word_of_int (d AND 0xFF) :: byte) = d"
proof -
  have hi: "drop_bit 8 d = d div 256"
    by (simp add: drop_bit_eq_div)
  have "d AND mask 8 = d mod 2 ^ 8"
    by (simp only: take_bit_eq_mod flip: take_bit_eq_mask)
  then have lo: "d AND 0xFF = d mod 256"
    by (simp add: mask_eq_exp_minus_1)
  have "d div 256 < 256" "0 \<le> d div 256"
    using assms by simp_all
  then have "uint (word_of_int (d div 256) :: byte) = d div 256"
    by (simp add: uint_word_of_int take_bit_eq_mod)
  moreover have "uint (word_of_int (d mod 256) :: byte) = d mod 256"
    by (simp add: uint_word_of_int take_bit_eq_mod)
  ultimately show ?thesis
    by (simp add: hi lo)
qed

text \<open>
  C6, as stated, fails: the code has no check of the count against 1 and 125.  A request for
  0 registers and a request for 126 registers are both built (and would be written).
\<close>

theorem request_frame_accepts_count_0_and_126:
  "request_frame 0x81 0x03 0x38 0 = Inr [0x81, 0x03, 0x00, 0x38, 0x00, 0x00, 0xDB, 0xC7] \<and>
   request_frame 0x81 0x03 0x38 126 = Inr [0x81, 0x03, 0x00, 0x38, 0x00, 0x7E, 0x5B, 0xE7]"
  by code_simp

text \<open>
  C6, amended: the only limit on the register count is the 16-bit field of \<open>struct.pack\<close>.
  With the address and function code in one byte and the start address in 16 bits, every
  count from 0 to 65535 gives an 8-byte request that carries that count in bytes 4 and 5
  (high byte first) and is written to the port; every other count raises \<open>struct.error\<close>
  before anything is written.
\<close>

theorem request_frame_count_range:
  assumes "0 \<le> slave_id" "slave_id \<le> 0xFF" "0 \<le> function_code" "function_code \<le> 0xFF"
    and "0 \<le> start_addr" "start_addr \<le> 0xFFFF"
  shows "(0 \<le> count \<and> count \<le> 0xFFFF \<longrightarrow>
           (\<exists>request. request_frame slave_id function_code start_addr count = Inr request \<and>
              send_modbus_request ser slave_id function_code start_addr count =
                Inr (ser\<lparr>written := written ser @ [request]\<rparr>) \<and>
              length request = 8 \<and>
              256 * uint (request ! 4) + uint (request ! 5) = count)) \<and>
         (\<not> (0 \<le> count \<and> count \<le> 0xFFFF) \<longrightarrow>
           request_frame slave_id function_code start_addr count = Inl StructError \<and>
           send_modbus_request ser slave_id function_code start_addr count = Inl StructError)"
proof (intro conjI impI)
  assume range: "0 \<le> count \<and> count \<le> 0xFFFF"
  let ?frame = "[word_of_int slave_id, word_of_int function_code,
                 word_of_int (drop_bit 8 start_addr), word_of_int (start_addr AND 0xFF),
                 word_of_int (drop_bit 8 count), word_of_int (count AND 0xFF)] :: bytes"
  let ?crc = "[word_of_int (crc_value ?frame AND 0xFF),
               word_of_int (drop_bit 8 (crc_value ?frame))] :: bytes"
  have packed: "pack_BBHH_be slave_id function_code start_addr count = Inr ?frame"
    using assms range by (simp add: pack_BBHH_be_def)
  have built: "request_frame slave_id function_code start_addr count = Inr (?frame @ ?crc)"
    by (simp add: request_frame_def packed calculate_crc_total)
  have sent: "send_modbus_request ser slave_id function_code start_addr count =
                Inr (ser\<lparr>written := written ser @ [?frame @ ?crc]\<rparr>)"
    by (simp add: send_modbus_request_def built)
  have count: "256 * uint ((?frame @ ?crc) ! 4) + uint ((?frame @ ?crc) ! 5) = count"
    using u16_bytes [of count] range by simp
  show "\<exists>request. request_frame slave_id function_code start_addr count = Inr request \<and>
              send_modbus_request ser slave_id function_code start_addr count =
                Inr (ser\<lparr>written := written ser @ [request]\<rparr>) \<and>
              length request = 8 \<and>
              256 * uint (request ! 4) + uint (request ! 5) = count"
    using built sent count by (intro exI [of _ "?frame @ ?crc"]) simp
next
  assume out: "\<not> (0 \<le> count \<and> count \<le> 0xFFFF)"
  then have "pack_BBHH_be slave_id function_code start_addr count = Inl StructError"
    by (auto simp add: pack_BBHH_be_def)
  then show "request_frame slave_id function_code start_addr count = Inl StructError"
    by (simp add: request_frame_def)
  then show "send_modbus_request ser slave_id function_code start_addr count = Inl StructError"
    by (simp add: send_modbus_request_def)
qed

text \<open>The amended C6 at the pack-data address of battery 1: 126 registers are accepted,
  65536 are refused.\<close>

theorem request_frame_count_range_witness:
  "request_frame 0x81 0x03 0x38 126 \<noteq> Inl StructError \<and>
   request_frame 0x81 0x03 0x38 65536 = Inl StructError"
  using request_frame_count_range [of "0x81" "0x03" "0x38" 126]
        request_frame_count_range [of "0x81" "0x03" "0x38" 65536]
  by auto

section \<open>C9: the register loop and the parity of the byte count\<close>

lemma unpack_H_be_short: "length buf \<noteq> 2 \<Longrightarrow> unpack_H_be buf = Inl StructError"
  by (cases buf rule: unpack_H_be.cases) simp_all

lemma unpack_H_be_two: "length buf = 2 \<Longrightarrow> \<exists>v. unpack_H_be buf = Inr v"
  by (cases buf rule: unpack_H_be.cases) simp_all

lemma length_py_slice: "length (py_slice xs i j) = min (j - i) (length xs - i)"
  by (simp add: py_slice_def)

lemma registers_loop_odd:
  "odd byte_count \<Longrightarrow> even i \<Longrightarrow> i \<le> byte_count \<Longrightarrow> length data \<le> byte_count \<Longrightarrow>
   registers_loop data i byte_count registers = Inl StructError"
proof (induction data i byte_count registers rule: registers_loop.induct)
  case (1 data i byte_count registers)
  from "1.prems" have less: "i < byte_count"
    by (metis le_neq_implies_less)
  show ?case
  proof (cases "length (py_slice data i (i + 2)) = 2")
    case True
    then obtain v where v: "unpack_H_be (py_slice data i (i + 2)) = Inr v"
      using unpack_H_be_two by blast
    from True have "i + 2 \<le> length data"
      by (simp add: length_py_slice)
    with "1.prems" have "i + 2 \<le> byte_count" "even (i + 2)"
      by simp_all
    with "1.IH" [OF less v] "1.prems" have
      "registers_loop data (i + 2) byte_count (registers @ [v]) = Inl StructError"
      by simp
    with less v show ?thesis
      by (subst registers_loop.simps) simp
  next
    case False
    then have "unpack_H_be (py_slice data i (i + 2)) = Inl StructError"
      by (rule unpack_H_be_short)
    with less show ?thesis
      by (subst registers_loop.simps) simp
  qed
qed

lemma registers_loop_even:
  "even byte_count \<Longrightarrow> even i \<Longrightarrow> i \<le> byte_count \<Longrightarrow> byte_count \<le> length data \<Longrightarrow>
   \<exists>regs. registers_loop data i byte_count registers = Inr regs \<and>
          length regs = length registers + (byte_count - i) div 2"
proof (induction data i byte_count registers rule: registers_loop.induct)
  case (1 data i byte_count registers)
  show ?case
  proof (cases "i < byte_count")
    case True
    with "1.prems" have next_le: "i + 2 \<le> byte_count"
      by presburger
    with "1.prems" have "length (py_slice data i (i + 2)) = 2"
      by (simp add: length_py_slice)
    then obtain v where v: "unpack_H_be (py_slice data i (i + 2)) = Inr v"
      using unpack_H_be_two by blast
    from "1.IH" [OF True v] "1.prems" next_le obtain regs where
      regs: "registers_loop data (i + 2) byte_count (registers @ [v]) = Inr regs"
        "length regs = length (registers @ [v]) + (byte_count - (i + 2)) div 2"
      by auto
    have "(byte_count - i) div 2 = Suc ((byte_count - (i + 2)) div 2)"
      using next_le by presburger
    with regs True v show ?thesis
      by (subst registers_loop.simps) simp
  next
    case False
    with "1.prems" show ?thesis
      by (subst registers_loop.simps) simp
  qed
qed


lemma receive_single: "receive [] [frame] = frame"
  by (cases frame) (simp_all add: Let_def)

lemma main_receive_single: "main_receive [] [frame] = frame"
  by (cases frame) (simp_all add: Let_def)

lemma py_slice_append:
  "j \<le> length xs \<Longrightarrow> py_slice (xs @ ys) i j = py_slice xs i j"
  by (simp add: py_slice_def)

lemma parse_response_function_3:
  assumes "response ! 1 = 0x03" "3 \<le> length response"
  shows "parse_response response =
           (case registers_loop (py_slice response 3 (3 + unat (response ! 2))) 0
                   (unat (response ! 2)) [] of
              Inl e \<Rightarrow> Inl e | Inr registers \<Rightarrow> Inr (Some registers))"
    and "main_parse_response response =
           (case registers_loop (py_slice response 3 (3 + unat (response ! 2))) 0
                   (unat (response ! 2)) [] of
              Inl e \<Rightarrow> Inl e | Inr registers \<Rightarrow> Inr (Some registers))"
  using assms by (auto simp add: parse_response_def main_parse_response_def Let_def)

lemma parse_response_odd_even:
  assumes "response ! 1 = 0x03" "5 + unat (response ! 2) \<le> length response"
  shows "odd (unat (response ! 2)) \<Longrightarrow> parse_response response = Inl StructError"
    and "odd (unat (response ! 2)) \<Longrightarrow> main_parse_response response = Inl StructError"
    and "even (unat (response ! 2)) \<Longrightarrow> \<exists>regs. parse_response response = Inr (Some regs)"
    and "even (unat (response ! 2)) \<Longrightarrow> \<exists>regs. main_parse_response response = Inr (Some regs)"
proof -
  let ?n = "unat (response ! 2)"
  let ?data = "py_slice response 3 (3 + ?n)"
  have len: "length ?data = ?n"
    using assms(2) by (simp add: length_py_slice)
  have three: "3 \<le> length response"
    using assms(2) by simp
  note p = parse_response_function_3 [OF assms(1) three]
  {
    assume "odd ?n"
    then have "registers_loop ?data 0 ?n [] = Inl StructError"
      using len by (intro registers_loop_odd) simp_all
    then show "parse_response response = Inl StructError"
      and "main_parse_response response = Inl StructError"
      by (simp_all add: p)
  }
  {
    assume "even ?n"
    then obtain regs where "registers_loop ?data 0 ?n [] = Inr regs"
      using registers_loop_even [of ?n 0 ?data "[]"] len by auto
    then show "\<exists>regs. parse_response response = Inr (Some regs)"
      and "\<exists>regs. main_parse_response response = Inr (Some regs)"
      by (simp_all add: p)
  }
qed

text \<open>
  C9: when the accumulated answer has function code \<open>0x03\<close> and at least
  \<open>5 + byte_count\<close> bytes, an odd byte-count field (byte index 2) makes the reader of
  either script raise \<open>struct.error\<close> (the last slice \<open>data[i:i+2]\<close> has one byte) instead of
  returning \<open>None\<close> or a register list; with an even byte count it returns a register
  list.  So on such an answer the register loop completes exactly when the byte count is even.
\<close>

theorem odd_byte_count_raises_struct_error:
  assumes "receive [] turns = response" and "main_receive [] turns' = response"
    and "response ! 1 = 0x03" and "5 + unat (response ! 2) \<le> length response"
  shows "(odd (unat (response ! 2)) \<longrightarrow>
            read_modbus_response turns = Inl StructError \<and>
            main_read_modbus_response turns' = Inl StructError) \<and>
         (even (unat (response ! 2)) \<longrightarrow>
            (\<exists>regs. read_modbus_response turns = Inr (Some regs)) \<and>
            (\<exists>regs. main_read_modbus_response turns' = Inr (Some regs)))"
  using parse_response_odd_even [OF assms(3,4)] assms(1,2)
  by (simp add: read_modbus_response_def main_read_modbus_response_def)

text \<open>C9 on two answers of six and seven bytes: byte count 1 raises, byte count 2 returns.\<close>

theorem odd_byte_count_raises_struct_error_witness:
  "read_modbus_response [[0x51, 0x03, 0x01, 0xAA, 0x00, 0x00]] = Inl StructError \<and>
   main_read_modbus_response [[0x51, 0x03], [0x01, 0xAA, 0x00, 0x00]] = Inl StructError \<and>
   (\<exists>regs. read_modbus_response [[0x51, 0x03, 0x02, 0x04, 0xD2, 0xFA, 0xD5]] = Inr (Some regs))"
proof -
  have a: "receive [] [[0x51, 0x03, 0x01, 0xAA, 0x00, 0x00]] = [0x51, 0x03, 0x01, 0xAA, 0x00, 0x00]"
    by (rule receive_single)
  have b: "main_receive [] [[0x51, 0x03], [0x01, 0xAA, 0x00, 0x00]] = [0x51, 0x03, 0x01, 0xAA, 0x00, 0x00]"
    by (simp add: main_frame_complete_def)
  have c: "receive [] [[0x51, 0x03, 0x02, 0x04, 0xD2, 0xFA, 0xD5]] = [0x51, 0x03, 0x02, 0x04, 0xD2, 0xFA, 0xD5]"
    by (rule receive_single)
  have d: "main_receive [] [[0x51, 0x03, 0x02, 0x04, 0xD2, 0xFA, 0xD5]] = [0x51, 0x03, 0x02, 0x04, 0xD2, 0xFA, 0xD5]"
    by (rule main_receive_single)
  show ?thesis
    using odd_byte_count_raises_struct_error [OF a b] odd_byte_count_raises_struct_error [OF c d]
    by simp
qed

section \<open>C1: the trailing checksum of an answer\<close>

lemma parse_response_append:
  assumes "3 \<le> length body" and "body ! 1 = 0x03 \<longrightarrow> 3 + unat (body ! 2) \<le> length body"
  shows "parse_response (body @ trailer) = parse_response body"
    and "main_parse_response (body @ trailer) = main_parse_response body"
proof -
  have nth: "(body @ trailer) ! 1 = body ! 1" "(body @ trailer) ! 2 = body ! 2"
    using assms(1) by (simp_all add: nth_append)
  have len: "\<not> length (body @ trailer) \<le> 1" "\<not> length (body @ trailer) \<le> 2"
    "\<not> length body \<le> 1" "\<not> length body \<le> 2" "body @ trailer \<noteq> []" "body \<noteq> []"
    using assms(1) by auto
  have data: "body ! 1 = 0x03 \<Longrightarrow>
          py_slice (body @ trailer) 3 (3 + unat (body ! 2)) = py_slice body 3 (3 + unat (body ! 2))"
    using assms(2) by (simp add: py_slice_append)
  show "parse_response (body @ trailer) = parse_response body"
    unfolding parse_response_def Let_def nth if_P [OF len(5)] if_P [OF len(6)]
      if_not_P [OF len(1)] if_not_P [OF len(2)] if_not_P [OF len(3)] if_not_P [OF len(4)]
    using data by (cases "body ! 1 = 0x03") (simp_all only: if_True if_False refl)
  show "main_parse_response (body @ trailer) = main_parse_response body"
    unfolding main_parse_response_def Let_def nth if_P [OF len(5)] if_P [OF len(6)]
      if_not_P [OF len(1)] if_not_P [OF len(2)] if_not_P [OF len(3)] if_not_P [OF len(4)]
    using data by (cases "body ! 1 = 0x03") (simp_all only: if_True if_False refl)
qed

text \<open>
  C1, as stated, fails: neither script computes or compares a checksum on receive.  The
  complete answer \<open>51 03 02 04 D2 00 00\<close> ends in \<open>00 00\<close> where the CRC of its first five
  bytes is \<open>FA D5\<close>, and both readers return the register list \<open>[1234]\<close> from it.
\<close>

theorem registers_from_frame_with_wrong_checksum:
  "frame_complete [0x51, 0x03, 0x02, 0x04, 0xD2, 0x00, 0x00] \<and>
   calculate_crc [0x51, 0x03, 0x02, 0x04, 0xD2] = Inr [0xFA, 0xD5] \<and>
   read_modbus_response [[0x51, 0x03, 0x02, 0x04, 0xD2, 0x00, 0x00]] = Inr (Some [1234]) \<and>
   main_read_modbus_response [[0x51, 0x03, 0x02, 0x04, 0xD2, 0x00, 0x00]] = Inr (Some [1234])"
  by code_simp

text \<open>The register list a complete answer with an even byte count is parsed to, and the
  reassembly of an answer that arrives in pieces.\<close>

lemma py_slice_two:
  assumes "i + 2 \<le> length data"
  shows "py_slice data i (i + 2) = [data ! i, data ! (i + 1)]"
proof -
  have "drop i data = data ! i # drop (Suc i) data"
    using assms by (intro Cons_nth_drop_Suc [symmetric]) simp
  moreover have "drop (Suc i) data = data ! Suc i # drop (Suc (Suc i)) data"
    using assms by (intro Cons_nth_drop_Suc [symmetric]) simp
  ultimately show ?thesis
    by (simp add: py_slice_def)
qed

lemma registers_loop_values:
  "even byte_count \<Longrightarrow> even i \<Longrightarrow> i \<le> byte_count \<Longrightarrow> byte_count \<le> length data \<Longrightarrow>
   registers_loop data i byte_count registers =
     Inr (registers @
          map (\<lambda>j. 256 * uint (data ! (2 * j)) + uint (data ! (2 * j + 1)))
            [i div 2..<byte_count div 2])"
proof (induction data i byte_count registers rule: registers_loop.induct)
  case (1 data i byte_count registers)
  show ?case
  proof (cases "i < byte_count")
    case True
    with "1.prems" have next_le: "i + 2 \<le> byte_count"
      by presburger
    let ?v = "256 * uint (data ! i) + uint (data ! (i + 1))"
    have "i + 2 \<le> length data"
      using next_le "1.prems" by simp
    then have "py_slice data i (i + 2) = [data ! i, data ! (i + 1)]"
      by (rule py_slice_two)
    then have v: "unpack_H_be (py_slice data i (i + 2)) = Inr ?v"
      by (simp only: unpack_H_be.simps)
    have rest: "registers_loop data (i + 2) byte_count (registers @ [?v]) =
        Inr ((registers @ [?v]) @
             map (\<lambda>j. 256 * uint (data ! (2 * j)) + uint (data ! (2 * j + 1)))
               [(i + 2) div 2..<byte_count div 2])"
      using "1.IH" [OF True v] "1.prems" next_le by simp
    have less: "i div 2 < byte_count div 2"
      using True "1.prems" by presburger
    have twice: "2 * (i div 2) = i"
      using "1.prems" by simp
    have "[i div 2..<byte_count div 2] = i div 2 # [(i + 2) div 2..<byte_count div 2]"
      using less by (simp add: upt_conv_Cons)
    then have "map (\<lambda>j. 256 * uint (data ! (2 * j)) + uint (data ! (2 * j + 1)))
                 [i div 2..<byte_count div 2] =
               ?v # map (\<lambda>j. 256 * uint (data ! (2 * j)) + uint (data ! (2 * j + 1)))
                 [(i + 2) div 2..<byte_count div 2]"
      by (simp add: twice)
    with rest True v show ?thesis
      by (subst registers_loop.simps) simp
  next
    case False
    with "1.prems" show ?thesis
      by (subst registers_loop.simps) simp
  qed
qed

lemma payload_registers:
  assumes "3 + byte_count \<le> length body" and "even byte_count"
  shows "registers_loop (py_slice body 3 (3 + byte_count)) 0 byte_count [] =
           Inr (map (\<lambda>j. 256 * uint (body ! (3 + 2 * j)) + uint (body ! (4 + 2 * j)))
                  [0..<byte_count div 2])"
proof -
  let ?data = "py_slice body 3 (3 + byte_count)"
  have len: "length ?data = byte_count"
    using assms(1) by (simp add: length_py_slice)
  have nth: "?data ! k = body ! (3 + k)" if "k < byte_count" for k
    using that assms(1) by (simp add: py_slice_def)
  have "map (\<lambda>j. 256 * uint (?data ! (2 * j)) + uint (?data ! (2 * j + 1))) [0..<byte_count div 2] =
        map (\<lambda>j. 256 * uint (body ! (3 + 2 * j)) + uint (body ! (4 + 2 * j))) [0..<byte_count div 2]"
  proof (rule map_cong [OF refl])
    fix j
    assume "j \<in> set [0..<byte_count div 2]"
    then have "2 * j < byte_count" "2 * j + 1 < byte_count"
      using assms(2) by auto
    then have "?data ! (2 * j) = body ! (3 + 2 * j)" "?data ! (2 * j + 1) = body ! (4 + 2 * j)"
      using nth [of "2 * j"] nth [of "2 * j + 1"] by (simp_all add: add.commute add.left_commute)
    then show "256 * uint (?data ! (2 * j)) + uint (?data ! (2 * j + 1)) =
               256 * uint (body ! (3 + 2 * j)) + uint (body ! (4 + 2 * j))"
      by simp
  qed
  then show ?thesis
    using registers_loop_values [of byte_count 0 ?data "[]"] assms(2) len by simp
qed

lemma receive_step:
  "receive response (chunk # later) =
     (if frame_complete (response @ chunk) then response @ chunk
      else receive (response @ chunk) later)"
  by (cases chunk) (simp_all add: Let_def)

lemma main_receive_step:
  "main_receive response (chunk # later) =
     (if main_frame_complete (response @ chunk) then response @ chunk
      else main_receive (response @ chunk) later)"
  by (cases chunk) (simp_all add: Let_def)

lemma prefix_complete:
  assumes "frame = response @ rest" and "frame ! 1 = 0x03"
    and "length frame = 5 + unat (frame ! 2)" and "frame_complete response"
  shows "response = frame"
proof -
  from assms(4) have five: "5 \<le> length response"
    by (simp add: frame_complete_def split: if_splits)
  then have "response ! 1 = frame ! 1" "response ! 2 = frame ! 2"
    using assms(1) by (simp_all add: nth_append)
  with assms(2,4) five have "5 + unat (frame ! 2) \<le> length response"
    by (simp add: frame_complete_def Let_def)
  moreover have "length response + length rest = length frame"
    using assms(1) by simp
  ultimately have "length rest = 0"
    using assms(3) by linarith
  then show ?thesis
    using assms(1) by simp
qed

lemma receive_exact:
  assumes "frame ! 1 = 0x03" and "length frame = 5 + unat (frame ! 2)"
  shows "response @ concat turns = frame \<Longrightarrow> receive response turns = frame"
proof (induction turns arbitrary: response)
  case Nil
  then show ?case by simp
next
  case (Cons chunk later)
  let ?r = "response @ chunk"
  from Cons.prems have split: "frame = ?r @ concat later"
    by simp
  show ?case
  proof (cases "frame_complete ?r")
    case True
    then have "?r = frame"
      using prefix_complete [OF split assms] by simp
    moreover have "receive response (chunk # later) = ?r"
      using True by (simp only: receive_step if_True)
    ultimately show ?thesis
      by simp
  next
    case False
    have "receive ?r later = frame"
      using Cons.prems by (intro Cons.IH) simp
    moreover have "receive response (chunk # later) = receive ?r later"
      using False by (simp only: receive_step if_False)
    ultimately show ?thesis
      by simp
  qed
qed

lemma main_prefix_complete:
  assumes "frame = response @ rest"
    and "length frame = 5 + unat (frame ! 2)" and "main_frame_complete response"
  shows "response = frame"
proof -
  from assms(3) have five: "5 \<le> length response"
    by (simp add: main_frame_complete_def split: if_splits)
  then have "response ! 2 = frame ! 2"
    using assms(1) by (simp_all add: nth_append)
  with assms(3) five have "5 + unat (frame ! 2) \<le> length response"
    by (simp add: main_frame_complete_def Let_def)
  moreover have "length response + length rest = length frame"
    using assms(1) by simp
  ultimately have "length rest = 0"
    using assms(2) by linarith
  then show ?thesis
    using assms(1) by simp
qed

lemma main_receive_exact:
  assumes "length frame = 5 + unat (frame ! 2)"
  shows "response @ concat turns = frame \<Longrightarrow> main_receive response turns = frame"
proof (induction turns arbitrary: response)
  case Nil
  then show ?case by simp
next
  case (Cons chunk later)
  let ?r = "response @ chunk"
  from Cons.prems have split: "frame = ?r @ concat later"
    by simp
  show ?case
  proof (cases "main_frame_complete ?r")
    case True
    then have "?r = frame"
      using main_prefix_complete [OF split assms] by simp
    moreover have "main_receive response (chunk # later) = ?r"
      using True by (simp only: main_receive_step if_True)
    ultimately show ?thesis
      by simp
  next
    case False
    have "main_receive ?r later = frame"
      using Cons.prems by (intro Cons.IH) simp
    moreover have "main_receive response (chunk # later) = main_receive ?r later"
      using False by (simp only: main_receive_step if_False)
    ultimately show ?thesis
      by simp
  qed
qed

lemma complete_body:
  assumes "frame_complete (body @ [c1, c2])"
  shows "3 \<le> length body" and "body ! 1 = 0x03 \<longrightarrow> 3 + unat (body ! 2) \<le> length body"
proof -
  show len: "3 \<le> length body"
    using assms by (simp add: frame_complete_def split: if_splits)
  show "body ! 1 = 0x03 \<longrightarrow> 3 + unat (body ! 2) \<le> length body"
    using assms len by (simp add: frame_complete_def nth_append Let_def split: if_splits)
qed

lemma main_complete_body:
  assumes "main_frame_complete (body @ [c1, c2])"
  shows "3 \<le> length body" and "3 + unat (body ! 2) \<le> length body"
proof -
  show len: "3 \<le> length body"
    using assms by (simp add: main_frame_complete_def split: if_splits)
  show "3 + unat (body ! 2) \<le> length body"
    using assms len by (simp add: main_frame_complete_def nth_append Let_def split: if_splits)
qed

lemma parse_body_registers:
  assumes "body ! 1 = 0x03" and "3 + unat (body ! 2) \<le> length body" and "even (unat (body ! 2))"
  shows "parse_response body =
           Inr (Some (map (\<lambda>j. 256 * uint (body ! (3 + 2 * j)) + uint (body ! (4 + 2 * j)))
                  [0..<unat (body ! 2) div 2]))"
    and "main_parse_response body =
           Inr (Some (map (\<lambda>j. 256 * uint (body ! (3 + 2 * j)) + uint (body ! (4 + 2 * j)))
                  [0..<unat (body ! 2) div 2]))"
proof -
  have three: "3 \<le> length body"
    using assms(2) by simp
  note p = parse_response_function_3 [OF assms(1) three]
  note r = payload_registers [OF assms(2,3)]
  show "parse_response body =
           Inr (Some (map (\<lambda>j. 256 * uint (body ! (3 + 2 * j)) + uint (body ! (4 + 2 * j)))
                  [0..<unat (body ! 2) div 2]))"
    by (simp only: p(1) r sum.case)
  show "main_parse_response body =
           Inr (Some (map (\<lambda>j. 256 * uint (body ! (3 + 2 * j)) + uint (body ! (4 + 2 * j)))
                  [0..<unat (body ! 2) div 2]))"
    by (simp only: p(2) r sum.case)
qed

lemma exact_frame:
  assumes "body ! 1 = 0x03" and "length body = 3 + unat (body ! 2)"
  shows "(body @ [c1, c2]) ! 1 = 0x03"
    and "length (body @ [c1, c2]) = 5 + unat ((body @ [c1, c2]) ! 2)"
    and "frame_complete (body @ [c1, c2])"
    and "main_frame_complete (body @ [c1, c2])"
proof -
  have len: "3 \<le> length body"
    using assms(2) by simp
  then show one: "(body @ [c1, c2]) ! 1 = 0x03"
    using assms(1) by (simp add: nth_append)
  from len have two: "(body @ [c1, c2]) ! 2 = body ! 2"
    by (simp add: nth_append)
  show "length (body @ [c1, c2]) = 5 + unat ((body @ [c1, c2]) ! 2)"
    unfolding two using assms(2) by simp
  show "frame_complete (body @ [c1, c2])"
    unfolding frame_complete_def one two Let_def using assms(2) by simp
  show "main_frame_complete (body @ [c1, c2])"
    unfolding main_frame_complete_def two Let_def using assms(2) by simp
qed

text \<open>
  C1, amended: the receiver does not validate the checksum.  Every normal answer (function
  code \<open>0x03\<close>, byte count, payload, and any two trailing bytes whatever), delivered in any
  number of reads, is reassembled completely; for every completely reassembled answer
  (complete by the reader's own test) the result of \<open>read_modbus_response\<close> is decided by
  the bytes before the trailing 2 alone: an answer that differs in the trailing 2 bytes only
  gives the same result, and when the function code is \<open>0x03\<close> and the byte count is even
  the result is the list of the payload's big-endian 16-bit values, whether or not the
  trailing checksum matches.  This holds of the reader of either script.
\<close>

theorem trailing_checksum_bytes_are_ignored:
  "(concat turns = body @ [c1, c2] \<and> body ! 1 = 0x03 \<and> length body = 3 + unat (body ! 2) \<longrightarrow>
      receive [] turns = body @ [c1, c2] \<and> frame_complete (body @ [c1, c2]) \<and>
      main_receive [] turns = body @ [c1, c2] \<and> main_frame_complete (body @ [c1, c2])) \<and>
   (receive [] turns = body @ [c1, c2] \<and> frame_complete (body @ [c1, c2]) \<longrightarrow>
      (receive [] turns2 = body @ [d1, d2] \<longrightarrow>
         read_modbus_response turns2 = read_modbus_response turns) \<and>
      (body ! 1 = 0x03 \<and> even (unat (body ! 2)) \<longrightarrow>
         read_modbus_response turns =
           Inr (Some (map (\<lambda>j. 256 * uint (body ! (3 + 2 * j)) + uint (body ! (4 + 2 * j)))
                  [0..<unat (body ! 2) div 2])))) \<and>
   (main_receive [] turns = body @ [c1, c2] \<and> main_frame_complete (body @ [c1, c2]) \<longrightarrow>
      (main_receive [] turns2 = body @ [d1, d2] \<longrightarrow>
         main_read_modbus_response turns2 = main_read_modbus_response turns) \<and>
      (body ! 1 = 0x03 \<and> even (unat (body ! 2)) \<longrightarrow>
         main_read_modbus_response turns =
           Inr (Some (map (\<lambda>j. 256 * uint (body ! (3 + 2 * j)) + uint (body ! (4 + 2 * j)))
                  [0..<unat (body ! 2) div 2]))))"
proof (intro conjI impI; (elim conjE)?)
  assume whole: "concat turns = body @ [c1, c2]"
    and fc: "body ! 1 = 0x03" and len: "length body = 3 + unat (body ! 2)"
  note e = exact_frame [OF fc len, of c1 c2]
  show "receive [] turns = body @ [c1, c2]"
    using receive_exact [OF e(1,2), of "[]" turns] whole by simp
  show "main_receive [] turns = body @ [c1, c2]"
    using main_receive_exact [OF e(2), of "[]" turns] whole by simp
  show "frame_complete (body @ [c1, c2])"
    by (rule e(3))
  show "main_frame_complete (body @ [c1, c2])"
    by (rule e(4))
next
  assume got: "receive [] turns = body @ [c1, c2]" and complete: "frame_complete (body @ [c1, c2])"
    and got2: "receive [] turns2 = body @ [d1, d2]"
  note b = complete_body [OF complete]
  show "read_modbus_response turns2 = read_modbus_response turns"
    by (simp only: read_modbus_response_def got got2 parse_response_append(1) [OF b])
next
  assume got: "receive [] turns = body @ [c1, c2]" and complete: "frame_complete (body @ [c1, c2])"
    and fc: "body ! 1 = 0x03" and parity: "even (unat (body ! 2))"
  note b = complete_body [OF complete]
  from b(2) fc have data: "3 + unat (body ! 2) \<le> length body"
    by simp
  show "read_modbus_response turns =
           Inr (Some (map (\<lambda>j. 256 * uint (body ! (3 + 2 * j)) + uint (body ! (4 + 2 * j)))
                  [0..<unat (body ! 2) div 2]))"
    by (simp only: read_modbus_response_def got parse_response_append(1) [OF b]
        parse_body_registers(1) [OF fc data parity])
next
  assume got: "main_receive [] turns = body @ [c1, c2]"
    and complete: "main_frame_complete (body @ [c1, c2])"
    and got2: "main_receive [] turns2 = body @ [d1, d2]"
  note b = main_complete_body [OF complete]
  from b(2) have b2: "body ! 1 = 0x03 \<longrightarrow> 3 + unat (body ! 2) \<le> length body"
    by simp
  show "main_read_modbus_response turns2 = main_read_modbus_response turns"
    by (simp only: main_read_modbus_response_def got got2 parse_response_append(2) [OF b(1) b2])
next
  assume got: "main_receive [] turns = body @ [c1, c2]"
    and complete: "main_frame_complete (body @ [c1, c2])"
    and fc: "body ! 1 = 0x03" and parity: "even (unat (body ! 2))"
  note b = main_complete_body [OF complete]
  from b(2) have b2: "body ! 1 = 0x03 \<longrightarrow> 3 + unat (body ! 2) \<le> length body"
    by simp
  show "main_read_modbus_response turns =
           Inr (Some (map (\<lambda>j. 256 * uint (body ! (3 + 2 * j)) + uint (body ! (4 + 2 * j)))
                  [0..<unat (body ! 2) div 2]))"
    by (simp only: main_read_modbus_response_def got parse_response_append(2) [OF b(1) b2]
        parse_body_registers(2) [OF fc b(2) parity])
qed

text \<open>The amended C1 on the answer \<open>51 03 02 04 D2\<close>, delivered in pieces with the trailing
  bytes \<open>00 00\<close> and with its CRC \<open>FA D5\<close>.\<close>

theorem trailing_checksum_bytes_are_ignored_witness:
  "read_modbus_response [[0x51, 0x03], [], [0x02, 0x04, 0xD2], [0x00, 0x00]] = Inr (Some [1234]) \<and>
   main_read_modbus_response [[0x51, 0x03], [], [0x02, 0x04, 0xD2], [0x00, 0x00]] = Inr (Some [1234]) \<and>
   read_modbus_response [[0x51, 0x03, 0x02, 0x04], [0xD2, 0xFA, 0xD5]] =
     read_modbus_response [[0x51, 0x03], [], [0x02, 0x04, 0xD2], [0x00, 0x00]] \<and>
   main_read_modbus_response [[0x51, 0x03, 0x02, 0x04], [0xD2, 0xFA, 0xD5]] =
     main_read_modbus_response [[0x51, 0x03], [], [0x02, 0x04, 0xD2], [0x00, 0x00]]"
proof -
  let ?body = "[0x51, 0x03, 0x02, 0x04, 0xD2] :: bytes"
  let ?bad = "[[0x51, 0x03], [], [0x02, 0x04, 0xD2], [0x00, 0x00]] :: bytes list"
  let ?good = "[[0x51, 0x03, 0x02, 0x04], [0xD2, 0xFA, 0xD5]] :: bytes list"
  have body: "?body ! 1 = 0x03" "length ?body = 3 + unat (?body ! 2)" "even (unat (?body ! 2))"
    by simp_all
  have bad: "concat ?bad = ?body @ [0x00, 0x00]" and good: "concat ?good = ?body @ [0xFA, 0xD5]"
    by simp_all
  have regs: "map (\<lambda>j. 256 * uint (?body ! (3 + 2 * j)) + uint (?body ! (4 + 2 * j)))
                [0..<unat (?body ! 2) div 2] = [1234]"
    by simp
  show ?thesis
    using trailing_checksum_bytes_are_ignored [of ?bad ?body "0x00" "0x00" ?good "0xFA" "0xD5"]
      trailing_checksum_bytes_are_ignored [of ?good ?body "0xFA" "0xD5" ?bad "0x00" "0x00"]
      body bad good regs
    by simp
qed

section \<open>C5: exception answers\<close>

text \<open>
  C5, as stated, fails: the reader's result for an exception answer is \<open>None\<close>, whatever the
  error code in byte 2 is, and \<open>None\<close> is also its result for a timeout with no byte received.
  Two exception answers (with correct CRCs) that report the error codes 2 and 3 cannot be told
  apart, nor from silence, in either script.
\<close>

theorem error_code_is_not_reported:
  "calculate_crc [0x51, 0x83, 0x02] = Inr [0xC0, 0xE0] \<and>
   calculate_crc [0x51, 0x83, 0x03] = Inr [0x01, 0x20] \<and>
   read_modbus_response [[0x51, 0x83, 0x02, 0xC0, 0xE0]] = Inr None \<and>
   read_modbus_response [[0x51, 0x83, 0x03, 0x01, 0x20]] = Inr None \<and>
   read_modbus_response [] = Inr None \<and>
   main_read_modbus_response [[0x51, 0x83, 0x02, 0xC0, 0xE0]] = Inr None \<and>
   main_read_modbus_response [[0x51, 0x83, 0x03, 0x01, 0x20]] = Inr None \<and>
   main_read_modbus_response [] = Inr None"
  by code_simp

text \<open>The loop of new\_main.py goes on while fewer than 5 bytes are in, and stops at the first
  turn after which at least 5 bytes with an exception function code are in.\<close>

lemma short_incomplete: "length response < 5 \<Longrightarrow> \<not> frame_complete response"
  by (simp add: frame_complete_def)

lemma receive_few:
  "length (response @ concat before) < 5 \<Longrightarrow>
   receive response (before @ rest) = receive (response @ concat before) rest"
proof (induction before arbitrary: response)
  case Nil
  then show ?case by simp
next
  case (Cons chunk before)
  from Cons.prems have "length (response @ chunk) < 5"
    by simp
  then have "\<not> frame_complete (response @ chunk)"
    by (rule short_incomplete)
  then have "receive response ((chunk # before) @ rest) = receive (response @ chunk) (before @ rest)"
    by (simp only: append_Cons receive_step if_False)
  also have "\<dots> = receive ((response @ chunk) @ concat before) rest"
    using Cons.prems by (intro Cons.IH) simp
  finally show ?case
    by simp
qed

lemma exception_frame_complete:
  assumes "5 \<le> length response" and "response ! 1 \<ge> 0x80"
  shows "frame_complete response"
proof -
  have "response ! 1 \<noteq> 0x03"
    using assms(2) by auto
  then show ?thesis
    using assms by (simp add: frame_complete_def)
qed

lemma receive_stops_at_exception_frame:
  assumes "n < length turns" and "length (concat (take n turns)) < 5"
    and "5 \<le> length (concat (take (Suc n) turns))"
    and "concat (take (Suc n) turns) ! 1 \<ge> 0x80"
  shows "receive [] turns = concat (take (Suc n) turns)"
proof -
  have turns: "turns = take n turns @ turns ! n # drop (Suc n) turns"
    using assms(1) by (rule id_take_nth_drop)
  have upto: "concat (take (Suc n) turns) = concat (take n turns) @ turns ! n"
    using assms(1) by (simp add: take_Suc_conv_app_nth)
  have "receive [] turns = receive [] (take n turns @ turns ! n # drop (Suc n) turns)"
    using turns by simp
  also have "\<dots> = receive ([] @ concat (take n turns)) (turns ! n # drop (Suc n) turns)"
    using assms(2) by (intro receive_few) simp
  also have "\<dots> = concat (take (Suc n) turns)"
    using exception_frame_complete [OF assms(3,4)]
    by (simp only: receive_step upto append_Nil if_True)
  finally show ?thesis .
qed

text \<open>
  C5, amended: for every received answer whose function-code byte has the high bit set
  (\<open>\<ge> 0x80\<close>), the reader of new\_main.py takes the frame as complete at a total length of
  5: its loop stops at the first read after which at least 5 bytes are in, what later reads
  would deliver is not consumed, and its test for a complete frame holds exactly when 5
  bytes are in.  Its result is \<open>None\<close>, the value it also returns for a timeout: no
  registers and no error code, also when the deadline cuts the answer short after the
  function code.  The reader of main.py returns \<open>None\<close> as well once the error-code byte is
  there.
\<close>

theorem exception_response_gives_None:
  "(n < length turns \<and> length (concat (take n turns)) < 5 \<and>
    5 \<le> length (concat (take (Suc n) turns)) \<and> concat (take (Suc n) turns) ! 1 \<ge> 0x80 \<longrightarrow>
      receive [] turns = concat (take (Suc n) turns) \<and>
      read_modbus_response turns = Inr None) \<and>
   (receive [] turns = response \<and> 2 \<le> length response \<and> response ! 1 \<ge> 0x80 \<longrightarrow>
      (frame_complete response \<longleftrightarrow> 5 \<le> length response) \<and>
      read_modbus_response turns = Inr None \<and>
      read_modbus_response turns = read_modbus_response []) \<and>
   (main_receive [] turns' = response \<and> 3 \<le> length response \<and> response ! 1 \<ge> 0x80 \<longrightarrow>
      main_read_modbus_response turns' = Inr None)"
proof -
  have none: "parse_response r = Inr None" if "2 \<le> length r" "r ! 1 \<ge> 0x80" for r
  proof -
    have "r \<noteq> []" "\<not> length r \<le> 1"
      using that(1) by auto
    then show ?thesis
      using that(2) by (simp add: parse_response_def)
  qed
  have main_none: "main_parse_response r = Inr None" if "3 \<le> length r" "r ! 1 \<ge> 0x80" for r
  proof -
    have "r \<noteq> []" "\<not> length r \<le> 1" "\<not> length r \<le> 2"
      using that(1) by auto
    then show ?thesis
      using that(2) by (simp add: main_parse_response_def)
  qed
  have silent: "read_modbus_response [] = Inr None"
    by (simp add: read_modbus_response_def parse_response_def)
  have test: "frame_complete r \<longleftrightarrow> 5 \<le> length r" if "r ! 1 \<ge> 0x80" for r
  proof (cases "5 \<le> length r")
    case True
    then show ?thesis
      using exception_frame_complete [OF True that] by simp
  next
    case False
    then show ?thesis
      using short_incomplete [of r] by simp
  qed
  show ?thesis
  proof (intro conjI impI; (elim conjE)?)
    assume a: "n < length turns" "length (concat (take n turns)) < 5"
      "5 \<le> length (concat (take (Suc n) turns))" "concat (take (Suc n) turns) ! 1 \<ge> 0x80"
    show stop: "receive [] turns = concat (take (Suc n) turns)"
      using a by (rule receive_stops_at_exception_frame)
    show "read_modbus_response turns = Inr None"
      unfolding read_modbus_response_def stop using a(3,4) by (intro none) simp_all
  next
    assume a: "receive [] turns = response" "2 \<le> length response" "response ! 1 \<ge> 0x80"
    show "frame_complete response \<longleftrightarrow> 5 \<le> length response"
      using a(3) by (rule test)
    show "read_modbus_response turns = Inr None"
      unfolding read_modbus_response_def a(1) using a(2,3) by (rule none)
    then show "read_modbus_response turns = read_modbus_response []"
      by (simp only: silent)
  next
    assume a: "main_receive [] turns' = response" "3 \<le> length response" "response ! 1 \<ge> 0x80"
    show "main_read_modbus_response turns' = Inr None"
      unfolding main_read_modbus_response_def a(1) using a(2,3) by (rule main_none)
  qed
qed

text \<open>The amended C5 on the exception answer \<open>51 83 02 C0 E0\<close>, arriving in two pieces and
  followed by two more bytes, and on its first three bytes alone.\<close>

theorem exception_response_gives_None_witness:
  "receive [] [[0x51, 0x83], [0x02, 0xC0, 0xE0], [0xAA, 0xBB]] = [0x51, 0x83, 0x02, 0xC0, 0xE0] \<and>
   read_modbus_response [[0x51, 0x83], [0x02, 0xC0, 0xE0], [0xAA, 0xBB]] = Inr None \<and>
   read_modbus_response [[0x51, 0x83, 0x02]] = read_modbus_response [] \<and>
   main_read_modbus_response [[0x51, 0x83], [0x02, 0xC0, 0xE0]] = Inr None"
proof -
  let ?turns = "[[0x51, 0x83], [0x02, 0xC0, 0xE0], [0xAA, 0xBB]] :: bytes list"
  let ?frame = "[0x51, 0x83, 0x02, 0xC0, 0xE0] :: bytes"
  let ?part = "[0x51, 0x83, 0x02] :: bytes"
  have pieces: "concat (take 1 ?turns) = [0x51, 0x83]" "concat (take (Suc 1) ?turns) = ?frame"
    by simp_all
  have a: "(1::nat) < length ?turns" "length (concat (take 1 ?turns)) < 5"
    "5 \<le> length (concat (take (Suc 1) ?turns))" "concat (take (Suc 1) ?turns) ! 1 \<ge> 0x80"
    unfolding pieces by simp_all
  have "receive [] ?turns = concat (take (Suc 1) ?turns) \<and> read_modbus_response ?turns = Inr None"
    using exception_response_gives_None [of 1 ?turns] a by blast
  then have first: "receive [] ?turns = ?frame \<and> read_modbus_response ?turns = Inr None"
    by (simp only: pieces)
  have b: "receive [] [?part] = ?part" "2 \<le> length ?part" "?part ! 1 \<ge> 0x80"
    by (rule receive_single) simp_all
  have second: "read_modbus_response [?part] = read_modbus_response []"
    using exception_response_gives_None [of 0 "[?part]" ?part] b by blast
  have c: "main_receive [] [[0x51, 0x83], [0x02, 0xC0, 0xE0]] = ?frame"
    "3 \<le> length ?frame" "?frame ! 1 \<ge> 0x80"
    by (simp_all add: main_frame_complete_def)
  have third: "main_read_modbus_response [[0x51, 0x83], [0x02, 0xC0, 0xE0]] = Inr None"
    using exception_response_gives_None [of 0 "[]" ?frame "[[0x51, 0x83], [0x02, 0xC0, 0xE0]]"] c
    by blast
  show ?thesis
    using first second third by blast
qed

section \<open>C3: which register lists are decoded\<close>

text \<open>
  C3, as stated, fails for the temperature block: the loop decodes the cell temperatures from
  any answer of at least 4 registers.  An answer with byte count 8 (and a correct CRC) gives 4
  registers, not the 8 requested, and yields the four temperatures; so does a list of 9.
\<close>

theorem four_temperature_registers_are_decoded:
  "read_modbus_response [[0x51, 0x03, 0x08, 0, 45, 0, 45, 0, 45, 0, 45, 0x95, 0xC6]] =
     Inr (Some [45, 45, 45, 45]) \<and>
   length [45, 45, 45, 45 :: int] \<noteq> 8 \<and>
   cell_temps_of (Some [45, 45, 45, 45]) = [5, 5, 5, 5] \<and>
   length (cell_temps_of (Some (replicate 9 45))) = 4"
  by code_simp

text \<open>
  C3, amended: a register list is decoded as pack data exactly when its length is 50; it is
  decoded as temperatures exactly when its length is at least 4 (the first four registers are
  used, so lists shorter than 4 give no temperatures and lists longer than 4, the requested 8
  included, give the four temperatures).  A pack-data list of another length, like no answer
  (\<open>None\<close>), gives no reading and the line that says \<open>Timeout\<close>.
\<close>

theorem register_count_checks:
  "(pack_reading_of (Some regs) \<noteq> None \<longleftrightarrow> length regs = 50) \<and>
   (print_row name (Some regs) temps = TimeoutRow name \<longleftrightarrow> length regs \<noteq> 50) \<and>
   (cell_temps_of (Some regs) \<noteq> [] \<longleftrightarrow> 4 \<le> length regs) \<and>
   pack_reading_of None = None \<and> print_row name None temps = TimeoutRow name \<and>
   cell_temps_of None = []"
  by (auto simp add: print_row_def pack_reading_of_def cell_temps_of_def REGISTER_COUNT_def Let_def)

section \<open>C4: the decoded values\<close>

text \<open>The rounding on a few known doubles: \<open>0.1\<close>, the first integers that are not doubles
  (\<open>2 ^ 53 + 1\<close> is a tie and goes to the even significand), and a negative third.\<close>

lemma round_double_examples:
  "round_double (1 / 10) = 3602879701896397 / 2 ^ 55 \<and>
   round_double (2 ^ 53 + 1) = 2 ^ 53 \<and>
   round_double (2 ^ 53 + 3) = 2 ^ 53 + 4 \<and>
   round_double (- (1 / 3)) = - (6004799503160661 / 2 ^ 54)"
  by code_simp





text \<open>Every register the reader returns is a 16-bit value.\<close>

lemma registers_loop_range:
  "registers_loop data i byte_count registers = Inr regs \<Longrightarrow>
   \<forall>v\<in>set registers. 0 \<le> v \<and> v \<le> 0xFFFF \<Longrightarrow> \<forall>v\<in>set regs. 0 \<le> v \<and> v \<le> 0xFFFF"
proof (induction data i byte_count registers rule: registers_loop.induct)
  case (1 data i byte_count registers)
  show ?case
  proof (cases "i < byte_count")
    case True
    show ?thesis
    proof (cases "unpack_H_be (py_slice data i (i + 2))")
      case (Inl e)
      with True "1.prems"(1) show ?thesis
        by (subst (asm) registers_loop.simps) simp
    next
      case (Inr v)
      then obtain hi lo :: byte where "v = 256 * uint hi + uint lo"
        by (cases "py_slice data i (i + 2)" rule: unpack_H_be.cases) auto
      moreover have "uint hi \<le> 255" "uint lo \<le> 255" "0 \<le> uint hi" "0 \<le> uint lo"
        using uint_bounded [of hi] uint_bounded [of lo] by simp_all
      ultimately have v: "0 \<le> v \<and> v \<le> 0xFFFF"
        by simp
      have "registers_loop data (i + 2) byte_count (registers @ [v]) = Inr regs"
        using True Inr "1.prems"(1) by (subst (asm) registers_loop.simps) simp
      moreover have "\<forall>w\<in>set (registers @ [v]). 0 \<le> w \<and> w \<le> 0xFFFF"
        using v "1.prems"(2) by simp
      ultimately show ?thesis
        by (rule "1.IH" [OF True Inr])
    qed
  next
    case False
    with "1.prems" show ?thesis
      by (subst (asm) registers_loop.simps) simp
  qed
qed

lemma registers_in_range:
  assumes "read_modbus_response turns = Inr (Some regs)"
  shows "\<forall>v\<in>set regs. 0 \<le> v \<and> v \<le> 0xFFFF"
proof -
  from assms obtain data n where "registers_loop data 0 n [] = Inr regs"
    by (auto simp add: read_modbus_response_def parse_response_def Let_def
        split: if_splits sum.splits)
  then show ?thesis
    by (rule registers_loop_range) simp
qed




section \<open>C8: one line per battery\<close>

text \<open>As long as no call raises, a pass prints one line per battery; a pass that ends in an
  exception has printed fewer lines than there are batteries.\<close>

lemma poll_cycle_rows:
  "poll_cycle ser batteries = (rows, outcome) \<Longrightarrow>
   length rows \<le> length batteries \<and> ((\<exists>ser'. outcome = Inr ser') \<longleftrightarrow> length rows = length batteries)"
proof (induction batteries arbitrary: ser rows outcome)
  case Nil
  then show ?case by auto
next
  case (Cons battery batteries)
  show ?case
  proof (cases "poll_battery ser battery")
    case (Inl e)
    with Cons.prems show ?thesis by auto
  next
    case (Inr result)
    obtain ser' printed where result: "result = (ser', printed)"
      by (cases result)
    obtain rows' outcome' where rest: "poll_cycle ser' batteries = (rows', outcome')"
      by (cases "poll_cycle ser' batteries")
    from Cons.prems Inr result rest have "rows = printed # rows'" "outcome = outcome'"
      by simp_all
    with Cons.IH [OF rest] show ?thesis by simp
  qed
qed

text \<open>
  C8 does not hold of the code.  With the three configured batteries, battery 1 silent, and a
  single byte \<open>52\<close> arriving before the deadline of battery 2's temperature request,
  \<open>response[1]\<close> raises \<open>IndexError\<close> inside \<open>read_modbus_response\<close>: the pass ends with one
  line printed and battery 3 is never polled.  An answer cut off after \<open>51 03 64 04 D2\<close> to
  battery 1's pack-data request raises \<open>struct.error\<close> with no line printed at all.
\<close>

theorem truncated_answer_stops_the_cycle:
  "poll_cycle \<lparr>written = [], incoming = [[], [], [[0x52]]]\<rparr> BATTERIES =
     ([TimeoutRow ''Battery 1''], Inl IndexError) \<and>
   poll_cycle \<lparr>written = [], incoming = [[], [[0x51, 0x03, 0x64, 0x04, 0xD2]]]\<rparr> BATTERIES =
     ([], Inl StructError)"
  by code_simp

section \<open>C7: the order of the fault labels\<close>

text \<open>The statements of \<open>get_fault_list\<close> as one concatenation, byte by byte.\<close>

lemma append_if_alt: "append_if masked label faults = faults @ label_if (masked \<noteq> 0) label"
  by (simp add: append_if_def label_if_def)

lemma filter_labels:
  "map snd (filter P xs) = concat (map (\<lambda>x. label_if (P x) (snd x)) xs)"
  by (induction xs) (simp_all add: label_if_def)

lemma active_labels_8:
  "active_labels b [l0, l1, l2, l3, l4, l5, l6, l7] =
     label_if (bit b 0) l0 @ label_if (bit b 1) l1 @ label_if (bit b 2) l2 @
     label_if (bit b 3) l3 @ label_if (bit b 4) l4 @ label_if (bit b 5) l5 @
     label_if (bit b 6) l6 @ label_if (bit b 7) l7"
proof -
  have "[0..<length [l0, l1, l2, l3, l4, l5, l6, l7]] = [0, 1, 2, 3, 4, 5, 6, 7]"
    by (simp add: upt_rec)
  then show ?thesis
    unfolding active_labels_def filter_labels by (simp add: eval_nat_numeral)
qed

lemma active_labels_6:
  "active_labels b [l0, l1, l2, l3, l4, l5] =
     label_if (bit b 0) l0 @ label_if (bit b 1) l1 @ label_if (bit b 2) l2 @
     label_if (bit b 3) l3 @ label_if (bit b 4) l4 @ label_if (bit b 5) l5"
proof -
  have "[0..<length [l0, l1, l2, l3, l4, l5]] = [0, 1, 2, 3, 4, 5]"
    by (simp add: upt_rec)
  then show ?thesis
    unfolding active_labels_def filter_labels by (simp add: eval_nat_numeral)
qed

lemma mask_bits:
  fixes b :: int
  shows "(b AND 0x01 = 0) = (\<not> bit b 0)" "(b AND 0x02 = 0) = (\<not> bit b 1)"
    "(b AND 0x04 = 0) = (\<not> bit b 2)" "(b AND 0x08 = 0) = (\<not> bit b 3)"
    "(b AND 0x10 = 0) = (\<not> bit b 4)" "(b AND 0x20 = 0) = (\<not> bit b 5)"
    "(b AND 0x40 = 0) = (\<not> bit b 6)" "(b AND 0x80 = 0) = (\<not> bit b 7)"
  using and_exp_eq_0_iff_not_bit [of b 0] and_exp_eq_0_iff_not_bit [of b 1]
    and_exp_eq_0_iff_not_bit [of b 2] and_exp_eq_0_iff_not_bit [of b 3]
    and_exp_eq_0_iff_not_bit [of b 4] and_exp_eq_0_iff_not_bit [of b 5]
    and_exp_eq_0_iff_not_bit [of b 6] and_exp_eq_0_iff_not_bit [of b 7]
  by simp_all

lemma low_byte_eq: "f AND 0xFF = low_byte f"
proof -
  have "f AND mask 8 = f mod 2 ^ 8"
    by (simp only: take_bit_eq_mod flip: take_bit_eq_mask)
  then show ?thesis
    by (simp add: mask_eq_exp_minus_1 low_byte_def)
qed

lemma high_byte_eq: "low_byte (drop_bit 8 f) = high_byte f"
  by (simp add: low_byte_def high_byte_def drop_bit_eq_div)

lemma get_fault_list_in_order: "get_fault_list f1 f2 f3 f4 = faults_in_order f1 f2 f3 f4"
  unfolding get_fault_list_def Let_def append_if_alt high_byte_eq low_byte_eq mask_bits
    faults_in_order_def fault1_high_labels_def fault1_low_labels_def fault2_high_labels_def
    fault2_low_labels_def fault3_high_labels_def fault3_low_labels_def fault4_high_labels_def
    active_labels_8 active_labels_6
  by (simp only: not_not append_Nil append_assoc)

text \<open>
  C7: \<open>get_fault_list\<close> is a function of the four fault words alone, and its result is the
  catalogue read in a fixed order: the labels of the set bits of word 1's high byte by
  ascending bit, then those of word 1's low byte, then word 2, and so on.  Four zero words
  give the empty list; fault word 1 = \<open>0x0100\<close> with the other words zero gives exactly the
  label of cell voltage high, level 1.
\<close>

theorem fault_labels_in_fixed_order:
  "get_fault_list f1 f2 f3 f4 = faults_in_order f1 f2 f3 f4 \<and>
   get_fault_list 0 0 0 0 = [] \<and>
   get_fault_list 0x0100 0 0 0 = [''Cell V High L1'']"
proof -
  have "get_fault_list 0 0 0 0 = [] \<and> get_fault_list 0x0100 0 0 0 = [''Cell V High L1'']"
    by code_simp
  then show ?thesis
    by (simp only: get_fault_list_in_order simp_thms)
qed

section \<open>C10: the bits of fault word 4 that are never read\<close>

lemma active_labels_cong:
  assumes "\<forall>k<length labels. bit b k = bit b' k"
  shows "active_labels b labels = active_labels b' labels"
proof -
  have "filter (\<lambda>(k, label). bit b k) (zip [0..<length labels] labels) =
        filter (\<lambda>(k, label). bit b' k) (zip [0..<length labels] labels)"
    using assms by (intro filter_cong refl) (auto dest: set_zip_leftD)
  then show ?thesis
    by (simp add: active_labels_def)
qed

lemma bit_high_byte: "k < 8 \<Longrightarrow> bit (high_byte f) k = bit f (8 + k)"
proof -
  have "high_byte f = take_bit 8 (drop_bit 8 f)"
    by (simp add: high_byte_def take_bit_eq_mod drop_bit_eq_div)
  then show "k < 8 \<Longrightarrow> bit (high_byte f) k = bit f (8 + k)"
    by (simp add: bit_take_bit_iff bit_drop_bit_eq)
qed

lemma set_active_labels: "set (active_labels b labels) \<subseteq> set labels"
  by (auto simp add: active_labels_def dest: set_zip_rightD)

lemma set_faults_in_order: "set (faults_in_order f1 f2 f3 f4) \<subseteq> set all_fault_labels"
  unfolding faults_in_order_def all_fault_labels_def set_append
  using set_active_labels by blast

lemma all_faults: "get_fault_list 0xFFFF 0xFFFF 0xFFFF 0xFFFF = all_fault_labels"
  by code_simp

lemma all_fault_labels_distinct: "distinct all_fault_labels \<and> length all_fault_labels = 54"
  by code_simp

lemma emitted_labels:
  "{label. \<exists>f1 f2 f3 f4. label \<in> set (get_fault_list f1 f2 f3 f4)} = set all_fault_labels"
proof
  show "{label. \<exists>f1 f2 f3 f4. label \<in> set (get_fault_list f1 f2 f3 f4)} \<subseteq> set all_fault_labels"
    using set_faults_in_order unfolding get_fault_list_in_order by blast
  show "set all_fault_labels \<subseteq> {label. \<exists>f1 f2 f3 f4. label \<in> set (get_fault_list f1 f2 f3 f4)}"
  proof
    fix label
    assume "label \<in> set all_fault_labels"
    then have "label \<in> set (get_fault_list 0xFFFF 0xFFFF 0xFFFF 0xFFFF)"
      by (simp only: all_faults)
    then show "label \<in> {label. \<exists>f1 f2 f3 f4. label \<in> set (get_fault_list f1 f2 f3 f4)}"
      by (intro CollectI exI)
  qed
qed

lemma agree_on_bits:
  fixes a b :: int
  assumes "take_bit 6 (drop_bit 8 a) = take_bit 6 (drop_bit 8 b)"
  shows "\<forall>k<6. bit a (8 + k) = bit b (8 + k)"
proof (intro allI impI)
  fix k :: nat
  assume k: "k < 6"
  have "bit a (8 + k) = bit (take_bit 6 (drop_bit 8 a)) k"
    using k by (simp add: bit_take_bit_iff bit_drop_bit_eq)
  also have "\<dots> = bit (take_bit 6 (drop_bit 8 b)) k"
    by (simp only: assms)
  also have "\<dots> = bit b (8 + k)"
    using k by (simp add: bit_take_bit_iff bit_drop_bit_eq)
  finally show "bit a (8 + k) = bit b (8 + k)" .
qed

text \<open>
  C10: the result of \<open>get_fault_list\<close> does not depend on the low byte of fault word 4 nor on
  bits 6 and 7 of its high byte: whatever the fault words 1 to 3 are, two values of fault
  word 4 that agree on bits 0 to 5 of the high byte (bits 8 to 13 of the word) give the same
  list.  The labels that some input makes the decoder emit are exactly 54
  (16 + 16 + 16 + 6).
\<close>

theorem fault_word_4_unused_bits:
  "((\<forall>k<6. bit f4 (8 + k) = bit f4' (8 + k)) \<longrightarrow>
      get_fault_list f1 f2 f3 f4 = get_fault_list f1 f2 f3 f4') \<and>
   card {label. \<exists>f1 f2 f3 f4. label \<in> set (get_fault_list f1 f2 f3 f4)} = 54"
proof (intro conjI impI)
  assume agree: "\<forall>k<6. bit f4 (8 + k) = bit f4' (8 + k)"
  have "length fault4_high_labels = 6"
    by (simp add: fault4_high_labels_def)
  with agree have "\<forall>k<length fault4_high_labels. bit (high_byte f4) k = bit (high_byte f4') k"
    by (simp add: bit_high_byte)
  then have "active_labels (high_byte f4) fault4_high_labels =
             active_labels (high_byte f4') fault4_high_labels"
    by (rule active_labels_cong)
  then show "get_fault_list f1 f2 f3 f4 = get_fault_list f1 f2 f3 f4'"
    by (simp add: get_fault_list_in_order faults_in_order_def)
next
  show "card {label. \<exists>f1 f2 f3 f4. label \<in> set (get_fault_list f1 f2 f3 f4)} = 54"
    unfolding emitted_labels using all_fault_labels_distinct distinct_card [of all_fault_labels]
    by (simp only:)
qed

text \<open>C10 on the fault words \<open>0x01FF\<close> and \<open>0xC100\<close>, which differ in the low byte and in
  bits 6 and 7 of the high byte.\<close>

theorem fault_word_4_unused_bits_witness:
  "get_fault_list 0x0100 0x0001 0x8000 0x01FF = get_fault_list 0x0100 0x0001 0x8000 0xC100 \<and>
   get_fault_list 0x0100 0x0001 0x8000 0x01FF =
     [''Cell V High L1'', ''Diff V High L1'', ''Dischg MOS Open Circ'', ''Curr Mod Fail'']"
proof -
  have "take_bit 6 (drop_bit 8 (0x01FF :: int)) = take_bit 6 (drop_bit 8 (0xC100 :: int))"
    by simp
  then have "\<forall>k<6. bit (0x01FF :: int) (8 + k) = bit (0xC100 :: int) (8 + k)"
    by (rule agree_on_bits)
  moreover have "get_fault_list 0x0100 0x0001 0x8000 0x01FF =
     [''Cell V High L1'', ''Diff V High L1'', ''Dischg MOS Open Circ'', ''Curr Mod Fail'']"
    by code_simp
  ultimately show ?thesis
    using fault_word_4_unused_bits [of "0x01FF" "0xC100" "0x0100" "0x0001" "0x8000"]
    by blast
qed

end
